theory Spec2Isabelle
  imports Main "HOL-Library.Word" "HOL-Library.Sublist"
begin

unbundle bit_operations_syntax

section \<open>Data\<close>

text \<open>
  The elements of a \<^verbatim>\<open>Uint8Array\<close> are 8-bit words. A JavaScript string is a sequence of
  16-bit UTF-16 code units: \<^verbatim>\<open>length\<close>, \<^verbatim>\<open>===\<close> and \<^verbatim>\<open>replace\<close> all work on code units.
\<close>

type_synonym byte = "8 word"
type_synonym codeUnit = "16 word"
type_synonym jsstring = "codeUnit list"

text \<open>A string literal of the source, every character of which is ASCII.\<close>

definition ascii :: "string \<Rightarrow> jsstring" where
  "ascii s = map (\<lambda>c. of_nat (of_char c)) s"

text \<open>\<^verbatim>\<open>String.fromCharCode(0x1c)\<close> and its three siblings (lines 9 to 12 of server.js).\<close>

definition FS :: jsstring where "FS = [0x1c]"
definition GS :: jsstring where "GS = [0x1d]"
definition SO :: jsstring where "SO = [0x0e]"
definition SI :: jsstring where "SI = [0x0f]"

datatype error = TypeError

text \<open>
  What \<^verbatim>\<open>splitUint8ArrayBy0x1C\<close> can be handed: a \<^verbatim>\<open>Uint8Array\<close>, or anything else, which
  its \<^verbatim>\<open>instanceof\<close> test rejects.
\<close>

datatype jsarg = Uint8Array "byte list" | NotUint8Array

section \<open>The platform's text codecs\<close>

subsection \<open>UTF-16 code units and Unicode scalar values\<close>

definition isHigh :: "codeUnit \<Rightarrow> bool" where
  "isHigh c = (0xD800 \<le> unat c \<and> unat c \<le> 0xDBFF)"

definition isLow :: "codeUnit \<Rightarrow> bool" where
  "isLow c = (0xDC00 \<le> unat c \<and> unat c \<le> 0xDFFF)"

definition isSurrogate :: "codeUnit \<Rightarrow> bool" where
  "isSurrogate c = (0xD800 \<le> unat c \<and> unat c \<le> 0xDFFF)"

text \<open>
  The scalar values of a string, as \<^verbatim>\<open>TextEncoder.encode\<close> reads it: a surrogate pair is one
  code point, and a surrogate that is not part of a pair becomes U+FFFD.
\<close>

fun toScalars :: "jsstring \<Rightarrow> nat list" where
  "toScalars [] = []"
| "toScalars [c] = (if isSurrogate c then [0xFFFD] else [unat c])"
| "toScalars (c # d # cs) =
     (if isHigh c \<and> isLow d
      then (0x10000 + (unat c - 0xD800) * 0x400 + (unat d - 0xDC00)) # toScalars cs
      else if isSurrogate c then 0xFFFD # toScalars (d # cs)
      else unat c # toScalars (d # cs))"

text \<open>The code units of one code point, and of a sequence of code points.\<close>

definition utf16Units :: "nat \<Rightarrow> jsstring" where
  "utf16Units cp =
     (if cp < 0x10000 then [of_nat cp]
      else [of_nat (0xD800 + (cp - 0x10000) div 0x400),
            of_nat (0xDC00 + (cp - 0x10000) mod 0x400)])"

definition fromScalars :: "nat list \<Rightarrow> jsstring" where
  "fromScalars cps = concat (map utf16Units cps)"

subsection \<open>UTF-8\<close>

definition utf8EncodeScalar :: "nat \<Rightarrow> byte list" where
  "utf8EncodeScalar cp =
     (if cp < 0x80 then [of_nat cp]
      else if cp < 0x800 then [of_nat (0xC0 + cp div 64), of_nat (0x80 + cp mod 64)]
      else if cp < 0x10000 then
        [of_nat (0xE0 + cp div 4096), of_nat (0x80 + cp div 64 mod 64), of_nat (0x80 + cp mod 64)]
      else
        [of_nat (0xF0 + cp div 262144), of_nat (0x80 + cp div 4096 mod 64),
         of_nat (0x80 + cp div 64 mod 64), of_nat (0x80 + cp mod 64)])"

definition utf8Encode :: "nat list \<Rightarrow> byte list" where
  "utf8Encode cps = concat (map utf8EncodeScalar cps)"

text \<open>\<^verbatim>\<open>new TextEncoder().encode(s)\<close>.\<close>

definition textEncode :: "jsstring \<Rightarrow> byte list" where
  "textEncode s = utf8Encode (toScalars s)"

text \<open>
  The UTF-8 decoder of the Encoding Standard in replacement mode (\<^verbatim>\<open>fatal: false\<close>). Its state
  is the code point under construction, the number of continuation bytes seen and needed,
  and the bounds of the next continuation byte. A byte that cannot continue a sequence
  ends it with U+FFFD and is read again from the initial state; a sequence cut off by the
  end of the input gives U+FFFD.
\<close>

function utf8DecodeFrom :: "nat \<Rightarrow> nat \<Rightarrow> nat \<Rightarrow> nat \<Rightarrow> nat \<Rightarrow> byte list \<Rightarrow> nat list" where
  "utf8DecodeFrom cp seen needed lower upper [] = (if needed \<noteq> 0 then [0xFFFD] else [])"
| "utf8DecodeFrom cp seen needed lower upper (b # bs) =
     (if needed = 0 then
        (if unat b \<le> 0x7F then unat b # utf8DecodeFrom 0 0 0 0x80 0xBF bs
         else if 0xC2 \<le> unat b \<and> unat b \<le> 0xDF
           then utf8DecodeFrom (unat b mod 32) 0 1 0x80 0xBF bs
         else if 0xE0 \<le> unat b \<and> unat b \<le> 0xEF
           then utf8DecodeFrom (unat b mod 16) 0 2
                  (if unat b = 0xE0 then 0xA0 else 0x80) (if unat b = 0xED then 0x9F else 0xBF) bs
         else if 0xF0 \<le> unat b \<and> unat b \<le> 0xF4
           then utf8DecodeFrom (unat b mod 8) 0 3
                  (if unat b = 0xF0 then 0x90 else 0x80) (if unat b = 0xF4 then 0x8F else 0xBF) bs
         else 0xFFFD # utf8DecodeFrom 0 0 0 0x80 0xBF bs)
      else if unat b < lower \<or> upper < unat b
        then 0xFFFD # utf8DecodeFrom 0 0 0 0x80 0xBF (b # bs)
      else if seen + 1 \<noteq> needed
        then utf8DecodeFrom (cp * 64 + unat b mod 64) (seen + 1) needed 0x80 0xBF bs
      else (cp * 64 + unat b mod 64) # utf8DecodeFrom 0 0 0 0x80 0xBF bs)"
  by pat_completeness auto
termination
  by (relation "measure (\<lambda>(cp, seen, needed, lower, upper, bs).
        2 * length bs + (if needed = 0 then 0 else 1))") auto

declare utf8DecodeFrom.simps [simp del]

definition utf8Decode :: "byte list \<Rightarrow> nat list" where
  "utf8Decode bs = utf8DecodeFrom 0 0 0 0x80 0xBF bs"

text \<open>A decoder made without \<^verbatim>\<open>ignoreBOM\<close> drops a leading U+FEFF from what it decodes.\<close>

definition stripBOM :: "nat list \<Rightarrow> nat list" where
  "stripBOM cps = (case cps of [] \<Rightarrow> [] | c # rest \<Rightarrow> if c = 0xFEFF then rest else cps)"

text \<open>
  \<^verbatim>\<open>new TextDecoder("utf-8", { fatal: false }).decode(segment)\<close>. The call does not stream,
  so every call starts from the initial state.
\<close>

definition textDecode :: "byte list \<Rightarrow> jsstring" where
  "textDecode bs = fromScalars (stripBOM (utf8Decode bs))"

section \<open>The frame decoder\<close>

text \<open>
  \<^verbatim>\<open>input.subarray(begin, end)\<close> for indices that are not negative: both are clamped to the
  length, and an end before the begin gives the empty array.
\<close>

definition subarray :: "byte list \<Rightarrow> nat \<Rightarrow> nat \<Rightarrow> byte list" where
  "subarray input begin end = take (end - begin) (drop begin input)"

text \<open>
  The \<^verbatim>\<open>for\<close> loop of \<^verbatim>\<open>splitUint8ArrayBy0x1C\<close> (lines 83 to 88), from index \<open>i\<close> on, with
  its two variables \<^verbatim>\<open>start\<close> and \<^verbatim>\<open>parts\<close>.
\<close>

function splitLoop :: "byte list \<Rightarrow> nat \<Rightarrow> nat \<Rightarrow> byte list list \<Rightarrow> nat \<times> byte list list" where
  "splitLoop input i start parts =
     (if i < length input then
        (if input ! i = 0x1c
         then splitLoop input (i + 1) (i + 1) (parts @ [subarray input start i])
         else splitLoop input (i + 1) start parts)
      else (start, parts))"
  by pat_completeness auto
termination
  by (relation "measure (\<lambda>(input, i, start, parts). length input - i)") auto

declare splitLoop.simps [simp del]

text \<open>The loop, then the push of the final segment (line 90).\<close>

definition splitParts :: "byte list \<Rightarrow> byte list list" where
  "splitParts input =
     (case splitLoop input 0 0 [] of (start, parts) \<Rightarrow> parts @ [drop start input])"

text \<open>
  \<^verbatim>\<open>splitUint8ArrayBy0x1C(input, { encoding: "utf-8", includeEmpty })\<close>: the segments are
  decoded first, and the empty strings are removed afterwards.
\<close>

definition splitUint8ArrayBy0x1C :: "jsarg \<Rightarrow> bool \<Rightarrow> error + jsstring list" where
  "splitUint8ArrayBy0x1C input includeEmpty =
     (case input of
        NotUint8Array \<Rightarrow> Inl TypeError
      | Uint8Array bytes \<Rightarrow>
          (let strings = map textDecode (splitParts bytes)
           in Inr (if \<not> includeEmpty then filter (\<lambda>s. length s > 0) strings else strings)))"

text \<open>
  \<^verbatim>\<open>extractOpcode(message)\<close>; \<open>None\<close> is \<^verbatim>\<open>null\<close>. An exception of the \<^verbatim>\<open>try\<close> block is
  caught and leaves \<^verbatim>\<open>opcode\<close> at \<^verbatim>\<open>null\<close>. \<^verbatim>\<open>fields[2]\<close> is \<^verbatim>\<open>undefined\<close>, which no string
  equals, when there are fewer than three fields.
\<close>

definition extractOpcode :: "byte list \<Rightarrow> jsstring option" where
  "extractOpcode message =
     (let receivedMessage = message in
      if length receivedMessage \<le> 2 then None
      else
        (case splitUint8ArrayBy0x1C (Uint8Array (drop 2 receivedMessage)) False of
           Inl e \<Rightarrow> None
         | Inr fields \<Rightarrow>
             if length fields = 0 then None
             else if 2 < length fields \<and> fields ! 2 = ascii ''B0000'' then Some (ascii ''GIS'')
             else None))"

section \<open>The response resolver\<close>

text \<open>
  The values that the resolver handles. The mapping is \<^verbatim>\<open>config.messageMapping || {}\<close>, an
  object made by \<^verbatim>\<open>JSON.parse\<close> or by the literal \<^verbatim>\<open>{}\<close>: a property of it holds \<^verbatim>\<open>null\<close>, a
  boolean, a number, a text, or an array or object. A number is modelled by an integer, as
  the code only tests it for being zero. \<^verbatim>\<open>JSObject\<close> is any array, object or function;
  \<^verbatim>\<open>Undefined\<close> is what the lookup of a name gives that the object does not have.
\<close>

datatype jsvalue =
  Undefined | JSNull | JSBoolean bool | JSNumber int | JSString jsstring | JSObject

text \<open>
  The own properties of the mapping object, as the configuration gives them. The
  prototype of the object is \<^verbatim>\<open>Object.prototype\<close>.
\<close>

type_synonym mapping = "jsstring \<rightharpoonup> jsvalue"

text \<open>The names of the properties of \<^verbatim>\<open>Object.prototype\<close>, each a function or an object.\<close>

definition objectPrototypeNames :: "jsstring list" where
  "objectPrototypeNames =
     [ascii ''constructor'', ascii ''__defineGetter__'', ascii ''__defineSetter__'',
      ascii ''hasOwnProperty'', ascii ''__lookupGetter__'', ascii ''__lookupSetter__'',
      ascii ''isPrototypeOf'', ascii ''propertyIsEnumerable'', ascii ''toString'',
      ascii ''valueOf'', ascii ''__proto__'', ascii ''toLocaleString'']"

text \<open>
  \<^verbatim>\<open>messageMapping[opcode]\<close>: an own property first, then the prototype, then \<^verbatim>\<open>undefined\<close>.
\<close>

definition getProperty :: "mapping \<Rightarrow> jsstring \<Rightarrow> jsvalue" where
  "getProperty messageMapping key =
     (case messageMapping key of
        Some v \<Rightarrow> v
      | None \<Rightarrow> if key \<in> set objectPrototypeNames then JSObject else Undefined)"

text \<open>
  \<^verbatim>\<open>ToBoolean\<close>: \<^verbatim>\<open>undefined\<close>, \<^verbatim>\<open>null\<close>, \<^verbatim>\<open>false\<close>, zero and the empty string are falsy, every
  other value is truthy.
\<close>

fun truthy :: "jsvalue \<Rightarrow> bool" where
  "truthy Undefined = False"
| "truthy JSNull = False"
| "truthy (JSBoolean b) = b"
| "truthy (JSNumber n) = (n \<noteq> 0)"
| "truthy (JSString s) = (s \<noteq> [])"
| "truthy JSObject = True"

text \<open>\<^verbatim>\<open>getResponseMessage(opcode)\<close>, with the mapping it reads as a parameter.\<close>

definition getResponseMessage :: "mapping \<Rightarrow> jsstring \<Rightarrow> jsvalue" where
  "getResponseMessage messageMapping opcode =
     (let mapped = getProperty messageMapping opcode
      in if truthy mapped then mapped else JSString (ascii ''Unknown opcode: '' @ opcode))"

section \<open>The response encoder\<close>

text \<open>
  \<^verbatim>\<open>s.replace(/pat/g, rep)\<close> for a pattern of literal characters that is not empty and a
  replacement without \<^verbatim>\<open>$\<close>: the string is read from the left, and a match is replaced and
  skipped.
\<close>

fun replaceAll :: "jsstring \<Rightarrow> jsstring \<Rightarrow> jsstring \<Rightarrow> jsstring" where
  "replaceAll pat rep [] = []"
| "replaceAll pat rep (c # cs) =
     (if pat \<noteq> [] \<and> prefix pat (c # cs)
      then rep @ replaceAll pat rep (drop (length pat - 1) cs)
      else c # replaceAll pat rep cs)"

definition replaceSeperatorAndToUint8Array :: "jsstring \<Rightarrow> byte list" where
  "replaceSeperatorAndToUint8Array input =
     (let temp = replaceAll (ascii ''<FS>'') FS input;
          temp = replaceAll (ascii ''<SO>'') SO temp;
          temp = replaceAll (ascii ''<GS>'') GS temp;
          temp = replaceAll (ascii ''<SI>'') SI temp
      in textEncode temp)"

section \<open>The frame encoder\<close>

text \<open>
  \<^verbatim>\<open>appendLength(data)\<close> for a \<^verbatim>\<open>Uint8Array\<close>. \<^verbatim>\<open>>>>\<close> and \<^verbatim>\<open>&\<close> work on the length as a 32-bit
  integer. The function has no \<^verbatim>\<open>throw\<close>: every result is a returned array.
\<close>

definition appendLength :: "byte list \<Rightarrow> error + byte list" where
  "appendLength data =
     (let bytes = data;
          len = length bytes;
          result0 = ucast ((drop_bit 8 (word_of_nat len :: 32 word)) AND 0xff) :: byte;
          result1 = ucast ((word_of_nat len :: 32 word) AND 0xff) :: byte
      in Inr (result0 # result1 # bytes))"

section \<open>The connection handler\<close>

text \<open>
  What the \<^verbatim>\<open>data\<close> handler of \<^verbatim>\<open>createServer\<close> (lines 140 to 167) does with one buffer: it logs
  that no opcode was extracted, or that no response message is configured, or it writes a
  frame to the socket (after the delay), or an exception leaves the handler. Only a string
  has the method \<^verbatim>\<open>replace\<close> that \<^verbatim>\<open>replaceSeperatorAndToUint8Array\<close> calls: for any other
  value the call throws a \<^verbatim>\<open>TypeError\<close>.
\<close>

datatype outcome = FailedToExtract | NoResponseConfigured | Written "byte list" | Uncaught error

definition onData :: "mapping \<Rightarrow> byte list \<Rightarrow> outcome" where
  "onData messageMapping data =
     (case extractOpcode data of
        None \<Rightarrow> FailedToExtract
      | Some opcode \<Rightarrow>
          if opcode = [] then FailedToExtract
          else
            (let responseMessage = getResponseMessage messageMapping opcode
             in if \<not> truthy responseMessage then NoResponseConfigured
                else
                  (case responseMessage of
                     JSString text \<Rightarrow>
                       (case appendLength (replaceSeperatorAndToUint8Array text) of
                          Inl e \<Rightarrow> Uncaught e
                        | Inr frame \<Rightarrow> Written frame)
                   | _ \<Rightarrow> Uncaught TypeError)))"

section \<open>The operations in the words of the specification\<close>

text \<open>
  Splitting on a separator: one segment for every occurrence of the separator and a
  trailing one. \<open>cur\<close> is the segment being read.
\<close>

fun segments :: "byte \<Rightarrow> byte list \<Rightarrow> byte list \<Rightarrow> byte list list" where
  "segments sep cur [] = [cur]"
| "segments sep cur (x # xs) =
     (if x = sep then cur # segments sep [] xs else segments sep (cur @ [x]) xs)"

text \<open>The segments put together again, the separator between them.\<close>

fun joinWith :: "byte \<Rightarrow> byte list list \<Rightarrow> byte list" where
  "joinWith sep [] = []"
| "joinWith sep [p] = p"
| "joinWith sep (p # q # ps) = p @ sep # joinWith sep (q # ps)"

text \<open>
  The token table and the encoder of the specification: the four substitutions in the
  order of the table, each over the result of the one before, then UTF-8.
\<close>

definition tokenTable :: "(jsstring \<times> codeUnit) list" where
  "tokenTable =
     [(ascii ''<FS>'', 0x1c), (ascii ''<SO>'', 0x0e), (ascii ''<GS>'', 0x1d), (ascii ''<SI>'', 0x0f)]"

definition encodeSpec :: "jsstring \<Rightarrow> byte list" where
  "encodeSpec text =
     textEncode (foldl (\<lambda>t (token, control). replaceAll token [control] t) text tokenTable)"

text \<open>
  Modelled from the spec: the token-reverse substitution of its round-trip property, which
  the repository does not implement. The bytes are decoded as UTF-8, and each of the four
  control characters is replaced by its symbolic token.
\<close>

definition tokenReverse :: "byte list \<Rightarrow> jsstring" where
  "tokenReverse bytes =
     (let temp = fromScalars (utf8Decode bytes);
          temp = replaceAll FS (ascii ''<FS>'') temp;
          temp = replaceAll SO (ascii ''<SO>'') temp;
          temp = replaceAll GS (ascii ''<GS>'') temp;
          temp = replaceAll SI (ascii ''<SI>'') temp
      in temp)"

text \<open>A string that has the pattern as a substring.\<close>

fun occursIn :: "jsstring \<Rightarrow> jsstring \<Rightarrow> bool" where
  "occursIn pat [] = (pat = [])"
| "occursIn pat (c # cs) = (prefix pat (c # cs) \<or> occursIn pat cs)"

text \<open>Well-formed UTF-16: every surrogate is half of a pair.\<close>

fun wellFormed :: "jsstring \<Rightarrow> bool" where
  "wellFormed [] = True"
| "wellFormed [c] = (\<not> isSurrogate c)"
| "wellFormed (c # d # cs) =
     (if isHigh c then isLow d \<and> wellFormed cs else \<not> isLow c \<and> wellFormed (d # cs))"

text \<open>A Unicode scalar value: a code point that is not a surrogate.\<close>

definition isScalar :: "nat \<Rightarrow> bool" where
  "isScalar cp = (cp < 0x110000 \<and> \<not> (0xD800 \<le> cp \<and> cp \<le> 0xDFFF))"

section \<open>The loop of the split and the segments of the specification\<close>

lemma segments_not_Nil: "segments sep cur xs \<noteq> []"
  by (induction xs arbitrary: cur) auto

lemma joinWith_Cons: "ps \<noteq> [] \<Longrightarrow> joinWith sep (p # ps) = p @ sep # joinWith sep ps"
  by (cases ps) auto

text \<open>
  \<open>segments\<close> is a split: the segments joined by the separator are the input, there is one
  more segment than there are separators, and no segment holds a separator.
\<close>

lemma joinWith_segments: "joinWith sep (segments sep cur xs) = cur @ xs"
  by (induction xs arbitrary: cur) (auto simp: joinWith_Cons segments_not_Nil)

lemma length_segments: "length (segments sep cur xs) = Suc (count_list xs sep)"
  by (induction xs arbitrary: cur) auto

lemma segments_sep_free:
  "sep \<notin> set cur \<Longrightarrow> seg \<in> set (segments sep cur xs) \<Longrightarrow> sep \<notin> set seg"
proof (induction xs arbitrary: cur)
  case Nil
  then show ?case by simp
next
  case (Cons x xs)
  show ?case
  proof (cases "x = sep")
    case True
    with Cons.prems have "seg = cur \<or> seg \<in> set (segments sep [] xs)" by simp
    then show ?thesis using Cons.prems(1) Cons.IH [of "[]"] by auto
  next
    case False
    with Cons.prems have "seg \<in> set (segments sep (cur @ [x]) xs)" by simp
    moreover from False Cons.prems(1) have "sep \<notin> set (cur @ [x])" by auto
    ultimately show ?thesis by (rule Cons.IH [rotated])
  qed
qed

lemma subarray_same: "subarray input i i = []"
  by (simp add: subarray_def)

lemma subarray_snoc:
  "start \<le> i \<Longrightarrow> i < length input \<Longrightarrow>
   subarray input start (Suc i) = subarray input start i @ [input ! i]"
  by (simp add: subarray_def Suc_diff_le take_Suc_conv_app_nth)

text \<open>
  The invariant of the loop: the bytes from \<^verbatim>\<open>start\<close> to \<open>i\<close> are the segment being read,
  and the loop with the final push yields the segments of the rest after \<^verbatim>\<open>parts\<close>.
\<close>

lemma splitLoop_segments:
  "start \<le> i \<Longrightarrow> i \<le> length input \<Longrightarrow>
   (case splitLoop input i start parts of (s, ps) \<Rightarrow> ps @ [drop s input]) =
   parts @ segments 0x1c (subarray input start i) (drop i input)"
proof (induction input i start parts rule: splitLoop.induct)
  case (1 input i start parts)
  show ?case
  proof (cases "i < length input")
    case False
    then have "splitLoop input i start parts = (start, parts)"
      by (simp add: splitLoop.simps [of input i])
    moreover from False "1.prems" have "drop i input = []" by simp
    ultimately show ?thesis
      using False "1.prems" by (simp add: subarray_def)
  next
    case True
    then have d: "drop i input = input ! i # drop (Suc i) input"
      by (simp add: Cons_nth_drop_Suc)
    show ?thesis
    proof (cases "input ! i = 0x1c")
      case True
      with \<open>i < length input\<close> "1.IH"(1) [OF \<open>i < length input\<close> True] d show ?thesis
        by (simp add: splitLoop.simps [of input i] subarray_same)
    next
      case False
      with \<open>i < length input\<close> "1.IH"(2) [OF \<open>i < length input\<close> False] "1.prems" d show ?thesis
        by (simp add: splitLoop.simps [of input i] subarray_snoc)
    qed
  qed
qed

lemma splitParts_segments: "splitParts input = segments 0x1c [] input"
  using splitLoop_segments [of 0 0 input "[]"] by (simp add: splitParts_def subarray_def)

lemma utf8Decode_Nil: "utf8Decode [] = []"
  by (simp add: utf8Decode_def utf8DecodeFrom.simps)

lemma textDecode_Nil: "textDecode [] = []"
  by (simp add: textDecode_def utf8Decode_Nil stripBOM_def fromScalars_def)

lemma length_filter_le_filter:
  "(\<And>x. P x \<Longrightarrow> Q x) \<Longrightarrow> length (filter P xs) \<le> length (filter Q xs)"
  by (induction xs) auto

text \<open>The fields that \<^verbatim>\<open>extractOpcode\<close> looks at, and what it returns.\<close>

lemma extractOpcode_fields:
  "extractOpcode message =
     (let fields = filter (\<lambda>s. s \<noteq> []) (map textDecode (segments 0x1c [] (drop 2 message)))
      in if 2 < length fields \<and> fields ! 2 = ascii ''B0000'' then Some (ascii ''GIS'') else None)"
proof (cases "length message \<le> 2")
  case True
  then have "drop 2 message = []" by simp
  with True show ?thesis
    by (simp add: extractOpcode_def textDecode_Nil)
next
  case False
  then show ?thesis
    by (auto simp: extractOpcode_def splitUint8ArrayBy0x1C_def splitParts_segments Let_def)
qed

section \<open>The opcode rule\<close>

text \<open>
  Claim C1, as the code has it. For every buffer, take the bytes after the first two,
  split them at every byte 0x1C, decode every segment and discard the texts that are
  empty after the decoding: those of the empty segments, and also those of the segments
  that hold nothing but a byte order mark. \<^verbatim>\<open>extractOpcode\<close> returns \<^verbatim>\<open>"GIS"\<close> when the text at
  index 2 of what is left is \<^verbatim>\<open>"B0000"\<close>, and \<^verbatim>\<open>null\<close> when another text or no text is at that
  index. No other opcode is returned.
\<close>

theorem extractOpcode_GIS:
  "extractOpcode message =
     (if 2 < length (filter (\<lambda>s. s \<noteq> []) (map textDecode (segments 0x1c [] (drop 2 message))))
         \<and> filter (\<lambda>s. s \<noteq> []) (map textDecode (segments 0x1c [] (drop 2 message))) ! 2
             = ascii ''B0000''
      then Some (ascii ''GIS'') else None)"
  using extractOpcode_fields [of message] by (simp add: Let_def)

theorem extractOpcode_GIS_witness:
  "extractOpcode [0x00, 0x0b, 0x78, 0x78, 0x1c, 0x79, 0x79, 0x1c, 0x42, 0x30, 0x30, 0x30, 0x31] = None
   \<and> extractOpcode [0x00, 0x0b, 0x78, 0x78, 0x1c, 0x79, 0x79, 0x1c, 0x42, 0x30, 0x30, 0x30, 0x30]
       = Some (ascii ''GIS'')"
  using
    extractOpcode_GIS
      [of "[0x00, 0x0b, 0x78, 0x78, 0x1c, 0x79, 0x79, 0x1c, 0x42, 0x30, 0x30, 0x30, 0x31]"]
    extractOpcode_GIS
      [of "[0x00, 0x0b, 0x78, 0x78, 0x1c, 0x79, 0x79, 0x1c, 0x42, 0x30, 0x30, 0x30, 0x30]"]
  by (simp add: textDecode_def utf8Decode_def utf8DecodeFrom.simps stripBOM_def fromScalars_def
      utf16Units_def ascii_def)

text \<open>
  The claim as stated discards the empty segments of the split, before the decoding. It
  fails in both directions on a segment that is the byte order mark EF BB BF, which is
  not empty and decodes to the empty text. In the first buffer the segments that are not
  empty are \<^verbatim>\<open>x\<close>, the mark, \<^verbatim>\<open>B0000\<close> and \<^verbatim>\<open>z\<close>, with \<^verbatim>\<open>B0000\<close> at index 2, and the code returns
  \<^verbatim>\<open>null\<close>. In the second they are the mark, \<^verbatim>\<open>xx\<close>, \<^verbatim>\<open>yy\<close> and \<^verbatim>\<open>B0000\<close>, with \<^verbatim>\<open>yy\<close> at index 2,
  and the code returns \<^verbatim>\<open>"GIS"\<close>.
\<close>

theorem extractOpcode_GIS_counterexample:
  "textDecode (filter (\<lambda>seg. seg \<noteq> [])
       (segments 0x1c [] (drop 2 [0x00, 0x00, 0x78, 0x1c, 0xef, 0xbb, 0xbf, 0x1c,
          0x42, 0x30, 0x30, 0x30, 0x30, 0x1c, 0x7a])) ! 2) = ascii ''B0000''
   \<and> extractOpcode [0x00, 0x00, 0x78, 0x1c, 0xef, 0xbb, 0xbf, 0x1c,
          0x42, 0x30, 0x30, 0x30, 0x30, 0x1c, 0x7a] = None
   \<and> textDecode (filter (\<lambda>seg. seg \<noteq> [])
       (segments 0x1c [] (drop 2 [0x00, 0x00, 0xef, 0xbb, 0xbf, 0x1c, 0x78, 0x78, 0x1c,
          0x79, 0x79, 0x1c, 0x42, 0x30, 0x30, 0x30, 0x30])) ! 2) = ascii ''yy''
   \<and> ascii ''yy'' \<noteq> ascii ''B0000''
   \<and> extractOpcode [0x00, 0x00, 0xef, 0xbb, 0xbf, 0x1c, 0x78, 0x78, 0x1c,
          0x79, 0x79, 0x1c, 0x42, 0x30, 0x30, 0x30, 0x30] = Some (ascii ''GIS'')"
  by (simp add: extractOpcode_fields textDecode_def utf8Decode_def utf8DecodeFrom.simps
      stripBOM_def fromScalars_def utf16Units_def ascii_def)

section \<open>Fewer than three segments\<close>

text \<open>
  Claim C8. When the bytes after the first two, split at every byte 0x1C, have fewer than
  three segments that are not empty, \<^verbatim>\<open>extractOpcode\<close> returns \<^verbatim>\<open>null\<close>.
\<close>

theorem extractOpcode_few_segments:
  assumes "length (filter (\<lambda>seg. seg \<noteq> []) (segments 0x1c [] (drop 2 message))) < 3"
  shows "extractOpcode message = None"
proof -
  let ?segs = "segments 0x1c [] (drop 2 message)"
  have "length (filter (\<lambda>s. s \<noteq> []) (map textDecode ?segs))
        = length (filter (\<lambda>seg. textDecode seg \<noteq> []) ?segs)"
    by (simp add: filter_map comp_def)
  also have "\<dots> \<le> length (filter (\<lambda>seg. seg \<noteq> []) ?segs)"
    by (rule length_filter_le_filter) (auto simp: textDecode_Nil)
  finally show ?thesis
    using assms by (simp add: extractOpcode_fields Let_def)
qed

theorem extractOpcode_few_segments_witness:
  "length (filter (\<lambda>seg. seg \<noteq> [])
     (segments 0x1c [] (drop 2 [0x00, 0x09, 0x78, 0x78, 0x1c, 0x1c, 0x42, 0x30, 0x30, 0x30, 0x30]))) < 3
   \<and> extractOpcode [0x00, 0x09, 0x78, 0x78, 0x1c, 0x1c, 0x42, 0x30, 0x30, 0x30, 0x30] = None"
  using extractOpcode_few_segments
    [of "[0x00, 0x09, 0x78, 0x78, 0x1c, 0x1c, 0x42, 0x30, 0x30, 0x30, 0x30]"]
  by simp

section \<open>Short buffers\<close>

text \<open>
  Claim C9. A buffer of at most two bytes has no payload after its header, and
  \<^verbatim>\<open>extractOpcode\<close> returns \<^verbatim>\<open>null\<close> for it.
\<close>

theorem extractOpcode_short:
  "length message \<le> 2 \<Longrightarrow> extractOpcode message = None"
  by (simp add: extractOpcode_def)

theorem extractOpcode_short_witness:
  "length [0x00, 0x05 :: byte] \<le> 2 \<and> extractOpcode [0x00, 0x05] = None"
  using extractOpcode_short [of "[0x00, 0x05]"] by simp


section \<open>The length prefix\<close>

lemma and_0xff: "unat ((w :: 32 word) AND 0xff) = unat w mod 256"
proof -
  have "(0xff :: 32 word) = mask 8"
    by (simp add: mask_eq_exp_minus_1)
  then show ?thesis
    by (simp only: flip: take_bit_eq_mask) (simp add: unsigned_take_bit_eq take_bit_eq_mod unat_mod)
qed

lemma low_byte_mod: "(len :: nat) mod 4294967296 mod 256 = len mod 256"
  by (rule mod_mod_cancel) simp

lemma high_byte_mod: "(len :: nat) mod 4294967296 div 256 mod 256 = len div 256 mod 256"
proof -
  have "len mod (256 * 16777216) = 256 * (len div 256 mod 16777216) + len mod 256"
    by (rule mod_mult2_eq)
  then have "len mod 4294967296 div 256 mod 256 = len div 256 mod 16777216 mod 256"
    by simp
  also have "\<dots> = len div 256 mod 256"
    by (rule mod_mod_cancel) simp
  finally show ?thesis .
qed

text \<open>The two bytes that \<^verbatim>\<open>appendLength\<close> writes, for a payload of any length.\<close>

lemma unat_result1: "unat (ucast ((word_of_nat len :: 32 word) AND 0xff) :: byte) = len mod 256"
proof -
  have "unat ((word_of_nat len :: 32 word) AND 0xff) = len mod 256"
    by (simp only: and_0xff unat_of_nat) (simp add: low_byte_mod)
  then show ?thesis
    by (simp add: unsigned_ucast_eq take_bit_eq_mod)
qed

lemma unat_result0:
  "unat (ucast ((drop_bit 8 (word_of_nat len :: 32 word)) AND 0xff) :: byte) = len div 256 mod 256"
proof -
  have "unat ((drop_bit 8 (word_of_nat len :: 32 word)) AND 0xff) = len div 256 mod 256"
    by (simp only: and_0xff unat_drop_bit_eq unat_of_nat) (simp add: drop_bit_eq_div high_byte_mod)
  then show ?thesis
    by (simp add: unsigned_ucast_eq take_bit_eq_mod)
qed

text \<open>
  Claim C6. For a payload of at most 65535 bytes, \<^verbatim>\<open>appendLength\<close> returns two bytes that are
  the length of the payload in big-endian order, followed by the payload unchanged.
\<close>

theorem appendLength_prefix:
  assumes "length payload \<le> 65535"
  shows "\<exists>hi lo. appendLength payload = Inr (hi # lo # payload) \<and>
           256 * unat hi + unat lo = length payload"
proof -
  from assms have "length payload div 256 mod 256 = length payload div 256" by simp
  then show ?thesis
    by (simp add: appendLength_def Let_def unat_result0 unat_result1)
qed

theorem appendLength_prefix_witness:
  "length ([] :: byte list) \<le> 65535 \<and> length (replicate 65535 (0x41 :: byte)) \<le> 65535
   \<and> (\<exists>hi lo. appendLength [] = Inr [hi, lo] \<and> 256 * unat hi + unat lo = 0)
   \<and> (\<exists>hi lo. appendLength (replicate 65535 0x41) = Inr (hi # lo # replicate 65535 0x41)
         \<and> 256 * unat hi + unat lo = 65535)"
  using appendLength_prefix [of "[]"] appendLength_prefix [of "replicate 65535 0x41"] by simp

text \<open>
  Claim C3, as the code has it. A payload of 65536 bytes raises no error: \<^verbatim>\<open>appendLength\<close>
  returns the two bytes 0x00 0x00, the low 16 bits of the length, followed by the payload
  unchanged.
\<close>

theorem appendLength_65536:
  "length payload = 65536 \<Longrightarrow> appendLength payload = Inr (0x00 # 0x00 # payload)"
  by (simp add: appendLength_def)

theorem appendLength_65536_witness:
  "length (replicate 65536 (0x00 :: byte)) = 65536
   \<and> appendLength (replicate 65536 0x00) = Inr (0x00 # 0x00 # replicate 65536 0x00)"
  using appendLength_65536 [of "replicate 65536 0x00"] by simp

text \<open>
  The claim as the specification states it, that a payload of 65536 bytes raises an
  error, fails on 65536 bytes \<^verbatim>\<open>A\<close>.
\<close>

theorem appendLength_65536_counterexample:
  "length (replicate 65536 (0x41 :: byte)) = 65536
   \<and> \<not> isl (appendLength (replicate 65536 0x41))
   \<and> appendLength (replicate 65536 0x41) = Inr (0x00 # 0x00 # replicate 65536 0x41)"
  by (simp add: appendLength_def)

section \<open>The scenario\<close>

text \<open>
  Claim C2. With the mapping \<^verbatim>\<open>{"GIS": "Hello"}\<close> and a buffer of two header bytes followed by
  \<^verbatim>\<open>xx\<close>, 0x1C, \<^verbatim>\<open>yy\<close>, 0x1C, \<^verbatim>\<open>B0000\<close>: \<^verbatim>\<open>extractOpcode\<close> returns \<^verbatim>\<open>"GIS"\<close>, \<^verbatim>\<open>getResponseMessage\<close>
  returns \<^verbatim>\<open>"Hello"\<close>, the encoder returns the UTF-8 bytes of \<^verbatim>\<open>Hello\<close>, and \<^verbatim>\<open>appendLength\<close>
  returns 0x00 0x05 \<^verbatim>\<open>H e l l o\<close>.
\<close>

theorem scenario_GIS_Hello:
  "extractOpcode ([h1, h2] @ [0x78, 0x78, 0x1c, 0x79, 0x79, 0x1c, 0x42, 0x30, 0x30, 0x30, 0x30])
     = Some (ascii ''GIS'')
   \<and> getResponseMessage [ascii ''GIS'' \<mapsto> JSString (ascii ''Hello'')] (ascii ''GIS'')
     = JSString (ascii ''Hello'')
   \<and> replaceSeperatorAndToUint8Array (ascii ''Hello'') = [0x48, 0x65, 0x6c, 0x6c, 0x6f]
   \<and> appendLength [0x48, 0x65, 0x6c, 0x6c, 0x6f]
     = Inr [0x00, 0x05, 0x48, 0x65, 0x6c, 0x6c, 0x6f]"
proof -
  have "extractOpcode ([h1, h2] @ [0x78, 0x78, 0x1c, 0x79, 0x79, 0x1c, 0x42, 0x30, 0x30, 0x30, 0x30])
          = Some (ascii ''GIS'')"
    by (simp add: extractOpcode_fields textDecode_def utf8Decode_def utf8DecodeFrom.simps
        stripBOM_def fromScalars_def utf16Units_def ascii_def)
  moreover have "getResponseMessage [ascii ''GIS'' \<mapsto> JSString (ascii ''Hello'')] (ascii ''GIS'')
          = JSString (ascii ''Hello'')"
    by (simp add: getResponseMessage_def getProperty_def ascii_def)
  moreover have "replaceSeperatorAndToUint8Array (ascii ''Hello'') = [0x48, 0x65, 0x6c, 0x6c, 0x6f]"
    by (simp add: replaceSeperatorAndToUint8Array_def ascii_def textEncode_def utf8Encode_def
        utf8EncodeScalar_def isSurrogate_def isHigh_def isLow_def)
  moreover have "appendLength [0x48, 0x65, 0x6c, 0x6c, 0x6f]
          = Inr [0x00, 0x05, 0x48, 0x65, 0x6c, 0x6c, 0x6f]"
    by (simp add: appendLength_def)
  ultimately show ?thesis by (intro conjI)
qed

section \<open>The resolver\<close>




section \<open>What the handler can do with the resolver's result\<close>

lemma getResponseMessage_truthy: "truthy (getResponseMessage messageMapping opcode)"
  by (simp add: getResponseMessage_def Let_def ascii_def)

lemma onData_responds: "onData messageMapping data \<noteq> NoResponseConfigured"
  by (simp add: onData_def Let_def getResponseMessage_truthy
      split: option.splits jsvalue.splits sum.splits)

lemma getResponseMessage_mapped:
  "messageMapping opcode = Some v \<Longrightarrow>
   getResponseMessage messageMapping opcode
     = (if truthy v then v else JSString (ascii ''Unknown opcode: '' @ opcode))"
  by (simp add: getResponseMessage_def getProperty_def)

lemma getResponseMessage_absent:
  "messageMapping opcode = None \<Longrightarrow> opcode \<notin> set objectPrototypeNames \<Longrightarrow>
   getResponseMessage messageMapping opcode = JSString (ascii ''Unknown opcode: '' @ opcode)"
  by (simp add: getResponseMessage_def getProperty_def)

text \<open>
  Claim C10, as the code has it. For every opcode and every mapping: when the mapping
  assigns the opcode a truthy value, \<^verbatim>\<open>getResponseMessage\<close> returns that value, which is a
  text that is not empty when it is a text at all; when the mapping assigns the opcode
  the empty text or another falsy value, and when the opcode is absent and is not the name
  of an inherited property, it returns \<^verbatim>\<open>"Unknown opcode: "\<close> followed by the opcode, which is
  never empty. The handler never takes the branch that logs that no response message is
  configured.
\<close>

theorem getResponseMessage_never_falsy:
  "(messageMapping opcode = Some v \<and> truthy v
      \<longrightarrow> getResponseMessage messageMapping opcode = v)
   \<and> (messageMapping opcode = Some (JSString text) \<and> text \<noteq> []
      \<longrightarrow> getResponseMessage messageMapping opcode = JSString text)
   \<and> (messageMapping opcode = Some v \<and> \<not> truthy v
      \<longrightarrow> getResponseMessage messageMapping opcode = JSString (ascii ''Unknown opcode: '' @ opcode))
   \<and> (messageMapping opcode = None \<and> opcode \<notin> set objectPrototypeNames
      \<longrightarrow> getResponseMessage messageMapping opcode = JSString (ascii ''Unknown opcode: '' @ opcode))
   \<and> ascii ''Unknown opcode: '' @ opcode \<noteq> []
   \<and> onData messageMapping data \<noteq> NoResponseConfigured"
  by (simp add: getResponseMessage_mapped getResponseMessage_absent onData_responds ascii_def)

text \<open>
  The mappings \<^verbatim>\<open>{"GIS": "Hello"}\<close>, \<^verbatim>\<open>{"GIS": ""}\<close>, \<^verbatim>\<open>{"GIS": 0}\<close>, \<^verbatim>\<open>{"GIS": null}\<close> and \<^verbatim>\<open>{}\<close>, and
  the buffer of the scenario.
\<close>

theorem getResponseMessage_never_falsy_witness:
  "getResponseMessage [ascii ''GIS'' \<mapsto> JSString (ascii ''Hello'')] (ascii ''GIS'')
     = JSString (ascii ''Hello'')
   \<and> getResponseMessage [ascii ''GIS'' \<mapsto> JSString []] (ascii ''GIS'')
     = JSString (ascii ''Unknown opcode: GIS'')
   \<and> getResponseMessage [ascii ''GIS'' \<mapsto> JSNumber 0] (ascii ''GIS'')
     = JSString (ascii ''Unknown opcode: GIS'')
   \<and> getResponseMessage [ascii ''GIS'' \<mapsto> JSNull] (ascii ''GIS'')
     = JSString (ascii ''Unknown opcode: GIS'')
   \<and> getResponseMessage Map.empty (ascii ''GIS'') = JSString (ascii ''Unknown opcode: GIS'')
   \<and> onData [ascii ''GIS'' \<mapsto> JSString []]
         [0x00, 0x0b, 0x78, 0x78, 0x1c, 0x79, 0x79, 0x1c, 0x42, 0x30, 0x30, 0x30, 0x30]
       \<noteq> NoResponseConfigured"
  using
    getResponseMessage_never_falsy
      [of "[ascii ''GIS'' \<mapsto> JSString (ascii ''Hello'')]" "ascii ''GIS''"
          "JSString (ascii ''Hello'')" "ascii ''Hello''"]
    getResponseMessage_never_falsy
      [of "[ascii ''GIS'' \<mapsto> JSString []]" "ascii ''GIS''" "JSString []" _
          "[0x00, 0x0b, 0x78, 0x78, 0x1c, 0x79, 0x79, 0x1c, 0x42, 0x30, 0x30, 0x30, 0x30]"]
    getResponseMessage_never_falsy
      [of "[ascii ''GIS'' \<mapsto> JSNumber 0]" "ascii ''GIS''" "JSNumber 0"]
    getResponseMessage_never_falsy
      [of "[ascii ''GIS'' \<mapsto> JSNull]" "ascii ''GIS''" "JSNull"]
    getResponseMessage_never_falsy [of Map.empty "ascii ''GIS''"]
  by (simp add: ascii_def objectPrototypeNames_def)

text \<open>
  The claim as stated, that the result is a text that is not empty for every mapping,
  fails on the mapping \<^verbatim>\<open>{"GIS": 5}\<close>: the result is the number 5, and the handler, given the
  buffer of the scenario, ends in the \<^verbatim>\<open>TypeError\<close> of the call of \<^verbatim>\<open>replace\<close> on a number.
\<close>

theorem getResponseMessage_never_falsy_counterexample:
  "getResponseMessage [ascii ''GIS'' \<mapsto> JSNumber 5] (ascii ''GIS'') = JSNumber 5
   \<and> extractOpcode [0x00, 0x0b, 0x78, 0x78, 0x1c, 0x79, 0x79, 0x1c, 0x42, 0x30, 0x30, 0x30, 0x30]
       = Some (ascii ''GIS'')
   \<and> onData [ascii ''GIS'' \<mapsto> JSNumber 5]
         [0x00, 0x0b, 0x78, 0x78, 0x1c, 0x79, 0x79, 0x1c, 0x42, 0x30, 0x30, 0x30, 0x30]
       = Uncaught TypeError"
proof -
  have opcode: "extractOpcode
      [0x00, 0x0b, 0x78, 0x78, 0x1c, 0x79, 0x79, 0x1c, 0x42, 0x30, 0x30, 0x30, 0x30]
      = Some (ascii ''GIS'')"
    by (simp add: extractOpcode_fields textDecode_def utf8Decode_def utf8DecodeFrom.simps
        stripBOM_def fromScalars_def utf16Units_def ascii_def)
  have message: "getResponseMessage [ascii ''GIS'' \<mapsto> JSNumber 5] (ascii ''GIS'') = JSNumber 5"
    by (simp add: getResponseMessage_def getProperty_def)
  have "ascii ''GIS'' \<noteq> []"
    by (simp add: ascii_def)
  then have "onData [ascii ''GIS'' \<mapsto> JSNumber 5]
      [0x00, 0x0b, 0x78, 0x78, 0x1c, 0x79, 0x79, 0x1c, 0x42, 0x30, 0x30, 0x30, 0x30]
      = Uncaught TypeError"
    by (simp add: onData_def opcode message)
  with opcode message show ?thesis by (intro conjI)
qed

section \<open>Substitution around a character that no match can cross\<close>

lemma prefix_within:
  assumes "prefix pat (x @ c # y)" and "c \<notin> set (tl pat)" and "x \<noteq> []"
  shows "prefix pat x"
proof -
  from assms(1) consider "prefix pat x" | us where "pat = x @ us" "prefix us (c # y)"
    by (auto simp: prefix_append)
  then show ?thesis
  proof cases
    case 1
    then show ?thesis .
  next
    case 2
    show ?thesis
    proof (cases us)
      case Nil
      with 2 show ?thesis by simp
    next
      case (Cons u us')
      with 2 have "u = c" by simp
      with 2 Cons assms(3) have "c \<in> set (tl pat)" by (cases x) auto
      with assms(2) show ?thesis by simp
    qed
  qed
qed

text \<open>
  A character that the pattern has at most as its first character splits the string: the
  replacement works on what is before it and on the rest independently.
\<close>

lemma replaceAll_append_at:
  assumes "c \<notin> set (tl pat)"
  shows "replaceAll pat rep (x @ c # y) = replaceAll pat rep x @ replaceAll pat rep (c # y)"
proof (induction x rule: length_induct)
  case (1 x)
  show ?case
  proof (cases x)
    case Nil
    then show ?thesis by simp
  next
    case (Cons a x')
    show ?thesis
    proof (cases "pat \<noteq> [] \<and> prefix pat (x @ c # y)")
      case True
      then have p: "prefix pat x"
        using prefix_within [of pat x c y] assms Cons by simp
      then have len: "length pat - 1 \<le> length x'"
        using Cons by (auto dest: prefix_length_le)
      have "length (drop (length pat - 1) x') < length x"
        using Cons by simp
      with 1 have "replaceAll pat rep (drop (length pat - 1) x' @ c # y)
          = replaceAll pat rep (drop (length pat - 1) x') @ replaceAll pat rep (c # y)"
        by blast
      with True p len Cons show ?thesis by simp
    next
      case False
      then have np: "\<not> (pat \<noteq> [] \<and> prefix pat x)"
        by (auto intro: prefix_prefix)
      have "length x' < length x" using Cons by simp
      with 1 have "replaceAll pat rep (x' @ c # y)
          = replaceAll pat rep x' @ replaceAll pat rep (c # y)"
        by blast
      moreover have "replaceAll pat rep (x @ c # y) = a # replaceAll pat rep (x' @ c # y)"
        using False Cons by (cases "pat = []") auto
      moreover have "replaceAll pat rep x = a # replaceAll pat rep x'"
        using np Cons by (cases "pat = []") auto
      ultimately show ?thesis by (simp only: append_Cons)
    qed
  qed
qed

lemma replaceAll_absent: "\<not> occursIn pat s \<Longrightarrow> replaceAll pat rep s = s"
  by (induction s) auto

lemma occursIn_single: "c \<notin> set s \<Longrightarrow> \<not> occursIn [c] s"
  by (induction s) auto

section \<open>Encoding around a character that is not a surrogate\<close>

lemma toScalars_nonsurrogate:
  "\<not> isSurrogate c \<Longrightarrow> toScalars (c # y) = unat c # toScalars y"
  by (cases y) (auto simp: isSurrogate_def isHigh_def)

lemma toScalars_append_at:
  "\<not> isLow c \<Longrightarrow> toScalars (x @ c # y) = toScalars x @ toScalars (c # y)"
  by (induction x rule: toScalars.induct) auto

lemma utf8Encode_append: "utf8Encode (xs @ ys) = utf8Encode xs @ utf8Encode ys"
  by (simp add: utf8Encode_def)

lemma textEncode_controls:
  "textEncode (x @ 0x1c # 0x1d # y) = textEncode x @ [0x1c, 0x1d] @ textEncode y"
proof -
  have "toScalars (x @ 0x1c # 0x1d # y) = toScalars x @ toScalars (0x1c # 0x1d # y)"
    by (rule toScalars_append_at) (simp add: isLow_def)
  also have "toScalars (0x1c # 0x1d # y) = 0x1c # 0x1d # toScalars y"
    by (simp add: toScalars_nonsurrogate isSurrogate_def isHigh_def isLow_def)
  finally show ?thesis
    by (simp add: textEncode_def utf8Encode_append) (simp add: utf8Encode_def utf8EncodeScalar_def)
qed

section \<open>The substitutions of the encoder\<close>

lemma encoder_tokens_adjacent:
  "replaceSeperatorAndToUint8Array (a @ ascii ''<FS>'' @ ascii ''<GS>'' @ b)
   = replaceSeperatorAndToUint8Array a @ [0x1c, 0x1d] @ replaceSeperatorAndToUint8Array b"
proof -
  let ?r1 = "replaceAll (ascii ''<FS>'') FS"
  let ?r2 = "replaceAll (ascii ''<SO>'') SO"
  let ?r3 = "replaceAll (ascii ''<GS>'') GS"
  let ?r4 = "replaceAll (ascii ''<SI>'') SI"
  have "?r1 (a @ 0x3c # [0x46, 0x53, 0x3e, 0x3c, 0x47, 0x53, 0x3e] @ b)
        = ?r1 a @ ?r1 (0x3c # [0x46, 0x53, 0x3e, 0x3c, 0x47, 0x53, 0x3e] @ b)"
    by (rule replaceAll_append_at) (simp add: ascii_def)
  then have s1: "?r1 (a @ ascii ''<FS>'' @ ascii ''<GS>'' @ b)
        = ?r1 a @ 0x1c # 0x3c # 0x47 # 0x53 # 0x3e # ?r1 b"
    by (simp add: ascii_def FS_def)
  have "?r2 (?r1 a @ 0x1c # 0x3c # 0x47 # 0x53 # 0x3e # ?r1 b)
        = ?r2 (?r1 a) @ ?r2 (0x1c # 0x3c # 0x47 # 0x53 # 0x3e # ?r1 b)"
    by (rule replaceAll_append_at) (simp add: ascii_def)
  then have s2: "?r2 (?r1 a @ 0x1c # 0x3c # 0x47 # 0x53 # 0x3e # ?r1 b)
        = ?r2 (?r1 a) @ 0x1c # 0x3c # 0x47 # 0x53 # 0x3e # ?r2 (?r1 b)"
    by (simp add: ascii_def)
  have "?r3 (?r2 (?r1 a) @ 0x1c # 0x3c # 0x47 # 0x53 # 0x3e # ?r2 (?r1 b))
        = ?r3 (?r2 (?r1 a)) @ ?r3 (0x1c # 0x3c # 0x47 # 0x53 # 0x3e # ?r2 (?r1 b))"
    by (rule replaceAll_append_at) (simp add: ascii_def)
  then have s3: "?r3 (?r2 (?r1 a) @ 0x1c # 0x3c # 0x47 # 0x53 # 0x3e # ?r2 (?r1 b))
        = ?r3 (?r2 (?r1 a)) @ 0x1c # 0x1d # ?r3 (?r2 (?r1 b))"
    by (simp add: ascii_def GS_def)
  have "?r4 (?r3 (?r2 (?r1 a)) @ 0x1c # 0x1d # ?r3 (?r2 (?r1 b)))
        = ?r4 (?r3 (?r2 (?r1 a))) @ ?r4 (0x1c # 0x1d # ?r3 (?r2 (?r1 b)))"
    by (rule replaceAll_append_at) (simp add: ascii_def)
  then have s4: "?r4 (?r3 (?r2 (?r1 a)) @ 0x1c # 0x1d # ?r3 (?r2 (?r1 b)))
        = ?r4 (?r3 (?r2 (?r1 a))) @ 0x1c # 0x1d # ?r4 (?r3 (?r2 (?r1 b)))"
    by (simp add: ascii_def)
  show ?thesis
    by (simp only: replaceSeperatorAndToUint8Array_def Let_def s1 s2 s3 s4 textEncode_controls)
qed

lemma encoder_is_encodeSpec: "replaceSeperatorAndToUint8Array text = encodeSpec text"
  by (simp add: replaceSeperatorAndToUint8Array_def encodeSpec_def tokenTable_def Let_def
      FS_def SO_def GS_def SI_def)

text \<open>
  Claim C5. For every response text the encoder is the encoder of the specification: the
  substitutions of \<^verbatim>\<open><FS>\<close> by 0x1C, \<^verbatim>\<open><SO>\<close> by 0x0E, \<^verbatim>\<open><GS>\<close> by 0x1D and \<^verbatim>\<open><SI>\<close> by 0x0F, in this
  order and each on every occurrence, then UTF-8. Where the text has \<^verbatim>\<open><FS>\<close> immediately
  followed by \<^verbatim>\<open><GS>\<close>, the result has the bytes 0x1C 0x1D, between the encoding of what is
  before and the encoding of what is after.
\<close>

theorem encoder_substitutes_in_order:
  "replaceSeperatorAndToUint8Array text = encodeSpec text
   \<and> replaceSeperatorAndToUint8Array (a @ ascii ''<FS>'' @ ascii ''<GS>'' @ b)
       = replaceSeperatorAndToUint8Array a @ [0x1c, 0x1d] @ replaceSeperatorAndToUint8Array b"
  by (simp only: encoder_is_encodeSpec [symmetric] encoder_tokens_adjacent simp_thms)

section \<open>UTF-8 decoding of what the encoder writes\<close>

lemma unat_byte: "n < 256 \<Longrightarrow> unat (of_nat n :: byte) = n"
  by (simp add: unat_of_nat)

lemma mod_lead: "k < n \<Longrightarrow> (m * n + k) mod n = (k::nat)"
  by simp

lemma lead2: "k < 32 \<Longrightarrow> (192 + k) mod 32 = (k::nat)"
  using mod_lead [of k 32 6] by simp

lemma lead3: "j < 16 \<Longrightarrow> (224 + j) mod 16 = (j::nat)"
  using mod_lead [of j 16 14] by simp

lemma lead4: "i < 8 \<Longrightarrow> (240 + i) mod 8 = (i::nat)"
  using mod_lead [of i 8 30] by simp

lemma continuation: "d < 64 \<Longrightarrow> (128 + d) mod 64 = (d::nat)"
  using mod_lead [of d 64 2] by simp

text \<open>One step of the decoder, for each kind of byte that a well-formed sequence has.\<close>

lemma start1:
  "unat b \<le> 0x7F \<Longrightarrow>
   utf8DecodeFrom 0 0 0 0x80 0xBF (b # bs) = unat b # utf8DecodeFrom 0 0 0 0x80 0xBF bs"
  by (simp add: utf8DecodeFrom.simps)

lemma start2:
  "0xC2 \<le> unat b \<Longrightarrow> unat b \<le> 0xDF \<Longrightarrow>
   utf8DecodeFrom 0 0 0 0x80 0xBF (b # bs) = utf8DecodeFrom (unat b mod 32) 0 1 0x80 0xBF bs"
  by (simp add: utf8DecodeFrom.simps)

lemma start3:
  "0xE0 \<le> unat b \<Longrightarrow> unat b \<le> 0xEF \<Longrightarrow>
   utf8DecodeFrom 0 0 0 0x80 0xBF (b # bs) =
   utf8DecodeFrom (unat b mod 16) 0 2
     (if unat b = 0xE0 then 0xA0 else 0x80) (if unat b = 0xED then 0x9F else 0xBF) bs"
  by (simp add: utf8DecodeFrom.simps)

lemma start4:
  "0xF0 \<le> unat b \<Longrightarrow> unat b \<le> 0xF4 \<Longrightarrow>
   utf8DecodeFrom 0 0 0 0x80 0xBF (b # bs) =
   utf8DecodeFrom (unat b mod 8) 0 3
     (if unat b = 0xF0 then 0x90 else 0x80) (if unat b = 0xF4 then 0x8F else 0xBF) bs"
  by (simp add: utf8DecodeFrom.simps)

lemma continue_more:
  "needed \<noteq> 0 \<Longrightarrow> lower \<le> unat b \<Longrightarrow> unat b \<le> upper \<Longrightarrow> seen + 1 \<noteq> needed \<Longrightarrow>
   utf8DecodeFrom cp seen needed lower upper (b # bs) =
   utf8DecodeFrom (cp * 64 + unat b mod 64) (seen + 1) needed 0x80 0xBF bs"
  by (simp add: utf8DecodeFrom.simps)

lemma continue_last:
  "needed \<noteq> 0 \<Longrightarrow> lower \<le> unat b \<Longrightarrow> unat b \<le> upper \<Longrightarrow> seen + 1 = needed \<Longrightarrow>
   utf8DecodeFrom cp seen needed lower upper (b # bs) =
   (cp * 64 + unat b mod 64) # utf8DecodeFrom 0 0 0 0x80 0xBF bs"
  by (simp add: utf8DecodeFrom.simps)

text \<open>Sequences of two, three and four bytes, by the six-bit digits of the code point.\<close>

lemma decode2:
  assumes "2 \<le> k" "k < 32" "d0 < 64"
    and b1: "unat b1 = 0xC0 + k" and b0: "unat b0 = 0x80 + d0"
  shows "utf8DecodeFrom 0 0 0 0x80 0xBF (b1 # b0 # rest)
     = (k * 64 + d0) # utf8DecodeFrom 0 0 0 0x80 0xBF rest"
proof -
  have "utf8DecodeFrom 0 0 0 0x80 0xBF (b1 # b0 # rest)
      = utf8DecodeFrom k 0 1 0x80 0xBF (b0 # rest)"
    using assms by (simp add: start2 lead2)
  also have "\<dots> = (k * 64 + d0) # utf8DecodeFrom 0 0 0 0x80 0xBF rest"
    using assms by (simp add: continue_last continuation)
  finally show ?thesis .
qed

lemma decode3:
  assumes "j < 16" "d1 < 64" "d0 < 64" "j = 0 \<Longrightarrow> 32 \<le> d1" "j = 13 \<Longrightarrow> d1 < 32"
    and b2: "unat b2 = 0xE0 + j" and b1: "unat b1 = 0x80 + d1" and b0: "unat b0 = 0x80 + d0"
  shows "utf8DecodeFrom 0 0 0 0x80 0xBF (b2 # b1 # b0 # rest)
     = ((j * 64 + d1) * 64 + d0) # utf8DecodeFrom 0 0 0 0x80 0xBF rest"
proof -
  let ?lower = "if j = 0 then 0xA0 else (0x80 :: nat)"
  let ?upper = "if j = 13 then 0x9F else (0xBF :: nat)"
  have "utf8DecodeFrom 0 0 0 0x80 0xBF (b2 # b1 # b0 # rest)
      = utf8DecodeFrom j 0 2 ?lower ?upper (b1 # b0 # rest)"
    using assms(1) b2 by (simp add: start3 lead3)
  also have "\<dots> = utf8DecodeFrom (j * 64 + d1) 1 2 0x80 0xBF (b0 # rest)"
    using assms(1-5) b1 by (subst continue_more) (auto simp: continuation)
  also have "\<dots> = ((j * 64 + d1) * 64 + d0) # utf8DecodeFrom 0 0 0 0x80 0xBF rest"
    using assms(3) b0 by (simp add: continue_last continuation)
  finally show ?thesis .
qed

lemma decode4:
  assumes "i < 5" "d2 < 64" "d1 < 64" "d0 < 64" "i = 0 \<Longrightarrow> 16 \<le> d2" "i = 4 \<Longrightarrow> d2 < 16"
    and b3: "unat b3 = 0xF0 + i" and b2: "unat b2 = 0x80 + d2"
    and b1: "unat b1 = 0x80 + d1" and b0: "unat b0 = 0x80 + d0"
  shows "utf8DecodeFrom 0 0 0 0x80 0xBF (b3 # b2 # b1 # b0 # rest)
     = (((i * 64 + d2) * 64 + d1) * 64 + d0) # utf8DecodeFrom 0 0 0 0x80 0xBF rest"
proof -
  let ?lower = "if i = 0 then 0x90 else (0x80 :: nat)"
  let ?upper = "if i = 4 then 0x8F else (0xBF :: nat)"
  have "utf8DecodeFrom 0 0 0 0x80 0xBF (b3 # b2 # b1 # b0 # rest)
      = utf8DecodeFrom i 0 3 ?lower ?upper (b2 # b1 # b0 # rest)"
    using assms(1) b3 by (simp add: start4 lead4)
  also have "\<dots> = utf8DecodeFrom (i * 64 + d2) 1 3 0x80 0xBF (b1 # b0 # rest)"
    using assms(1,2,5,6) b2 by (subst continue_more) (auto simp: continuation)
  also have "\<dots> = utf8DecodeFrom ((i * 64 + d2) * 64 + d1) (1 + 1) 3 0x80 0xBF (b0 # rest)"
    using assms(3) b1 by (subst continue_more) (auto simp: continuation)
  also have "\<dots> = (((i * 64 + d2) * 64 + d1) * 64 + d0) # utf8DecodeFrom 0 0 0 0x80 0xBF rest"
    using assms(4) b0 by (simp add: continue_last continuation)
  finally show ?thesis .
qed

lemma div_4096: "(cp :: nat) div 4096 = cp div 64 div 64"
  using div_mult2_eq [of cp 64 64] by simp

lemma div_262144: "(cp :: nat) div 262144 = cp div 64 div 64 div 64"
  using div_mult2_eq [of cp 4096 64] by (simp add: div_4096)

text \<open>The decoder reads back the scalar value that the encoder wrote.\<close>

lemma decode_encode_scalar:
  assumes "isScalar cp"
  shows "utf8DecodeFrom 0 0 0 0x80 0xBF (utf8EncodeScalar cp @ rest)
         = cp # utf8DecodeFrom 0 0 0 0x80 0xBF rest"
proof -
  define d0 where "d0 = cp mod 64"
  define q where "q = cp div 64"
  define d1 where "d1 = q mod 64"
  define r where "r = q div 64"
  define d2 where "d2 = r mod 64"
  define i where "i = r div 64"
  have cp: "cp = q * 64 + d0" and d0: "d0 < 64"
    by (simp_all add: q_def d0_def)
  have q: "q = r * 64 + d1" and d1: "d1 < 64"
    by (simp_all add: r_def d1_def)
  have r: "r = i * 64 + d2" and d2: "d2 < 64"
    by (simp_all add: i_def d2_def)
  from assms have scalar: "cp < 0x110000" "cp < 0xD800 \<or> 0xDFFF < cp"
    by (auto simp: isScalar_def)
  consider "cp < 0x80" | "0x80 \<le> cp" "cp < 0x800" | "0x800 \<le> cp" "cp < 0x10000" | "0x10000 \<le> cp"
    by linarith
  then show ?thesis
  proof cases
    case 1
    then have "utf8EncodeScalar cp = [of_nat cp]"
      by (simp add: utf8EncodeScalar_def)
    moreover from 1 have "unat (of_nat cp :: byte) = cp"
      by (simp add: unat_byte)
    ultimately show ?thesis
      using 1 by (simp add: start1)
  next
    case 2
    then have enc: "utf8EncodeScalar cp = [of_nat (0xC0 + q), of_nat (0x80 + d0)]"
      by (simp add: utf8EncodeScalar_def q_def d0_def)
    from 2 cp d0 have qb: "2 \<le> q" "q < 32" by linarith+
    have "utf8DecodeFrom 0 0 0 0x80 0xBF
            ((of_nat (0xC0 + q) :: byte) # of_nat (0x80 + d0) # rest)
          = (q * 64 + d0) # utf8DecodeFrom 0 0 0 0x80 0xBF rest"
      using qb d0 by (intro decode2 unat_byte) simp_all
    with enc cp show ?thesis by simp
  next
    case 3
    then have enc: "utf8EncodeScalar cp
        = [of_nat (0xE0 + r), of_nat (0x80 + d1), of_nat (0x80 + d0)]"
      by (simp add: utf8EncodeScalar_def q_def d0_def d1_def r_def div_4096)
    from 3 cp d0 q d1 have rb: "r < 16" by linarith
    from 3 cp d0 q d1 have lo: "r = 0 \<Longrightarrow> 32 \<le> d1" by linarith
    from 3 scalar cp d0 q d1 have hi: "r = 13 \<Longrightarrow> d1 < 32" by linarith
    have "utf8DecodeFrom 0 0 0 0x80 0xBF
            ((of_nat (0xE0 + r) :: byte) # of_nat (0x80 + d1) # of_nat (0x80 + d0) # rest)
          = ((r * 64 + d1) * 64 + d0) # utf8DecodeFrom 0 0 0 0x80 0xBF rest"
      using rb d1 d0 lo hi by (intro decode3 unat_byte) simp_all
    with enc cp q show ?thesis by simp
  next
    case 4
    then have enc: "utf8EncodeScalar cp
        = [of_nat (0xF0 + i), of_nat (0x80 + d2), of_nat (0x80 + d1), of_nat (0x80 + d0)]"
      by (simp add: utf8EncodeScalar_def q_def d0_def d1_def r_def d2_def i_def div_4096 div_262144)
    from scalar cp d0 q d1 r d2 have ib: "i < 5" by linarith
    from 4 cp d0 q d1 r d2 have lo: "i = 0 \<Longrightarrow> 16 \<le> d2" by linarith
    from scalar cp d0 q d1 r d2 have hi: "i = 4 \<Longrightarrow> d2 < 16" by linarith
    have "utf8DecodeFrom 0 0 0 0x80 0xBF
            ((of_nat (0xF0 + i) :: byte) # of_nat (0x80 + d2) # of_nat (0x80 + d1)
              # of_nat (0x80 + d0) # rest)
          = (((i * 64 + d2) * 64 + d1) * 64 + d0) # utf8DecodeFrom 0 0 0 0x80 0xBF rest"
      using ib d2 d1 d0 lo hi by (intro decode4 unat_byte) simp_all
    with enc cp q r show ?thesis by simp
  qed
qed

lemma utf8Decode_utf8Encode:
  "list_all isScalar cps \<Longrightarrow> utf8Decode (utf8Encode cps) = cps"
  by (induction cps)
    (simp_all add: utf8Decode_def utf8Encode_def decode_encode_scalar utf8DecodeFrom.simps)

section \<open>UTF-16 and scalar values\<close>

lemma unat_codeUnit: "unat (c :: codeUnit) < 65536"
  using unsigned_less [of c, where 'a = nat] by simp

lemma pair_scalar:
  assumes "isHigh c" "isLow d"
  shows "isScalar (0x10000 + (unat c - 0xD800) * 0x400 + (unat d - 0xDC00))"
proof -
  from assms have "unat c - 0xD800 \<le> 0x3FF" "unat d - 0xDC00 \<le> 0x3FF"
    by (auto simp: isHigh_def isLow_def)
  then show ?thesis
    unfolding isScalar_def by linarith
qed

lemma unit_scalar: "\<not> isSurrogate c \<Longrightarrow> isScalar (unat c)"
  using unat_codeUnit [of c] by (auto simp: isScalar_def isSurrogate_def)

lemma replacement_scalar: "isScalar 0xFFFD"
  by (simp add: isScalar_def)

lemma toScalars_scalar: "list_all isScalar (toScalars s)"
  by (induction s rule: toScalars.induct) (simp_all add: pair_scalar unit_scalar replacement_scalar)

lemma pair_units:
  assumes "isHigh c" "isLow d"
  shows "utf16Units (0x10000 + (unat c - 0xD800) * 0x400 + (unat d - 0xDC00)) = [c, d]"
proof -
  define h where "h = unat c - 0xD800"
  define l where "l = unat d - 0xDC00"
  from assms have c: "unat c = 0xD800 + h" and d: "unat d = 0xDC00 + l" and l: "l < 0x400"
    by (auto simp: isHigh_def isLow_def h_def l_def)
  have "(0x10000 + h * 0x400 + l) - 0x10000 = h * 0x400 + l" by simp
  moreover from l have "(h * 0x400 + l) div 0x400 = h" "(h * 0x400 + l) mod 0x400 = l" by simp_all
  moreover have "of_nat (0xD800 + h) = c" "of_nat (0xDC00 + l) = d"
    by (simp_all only: flip: c d) simp_all
  ultimately have "utf16Units (0x10000 + h * 0x400 + l) = [c, d]"
    by (simp only: utf16Units_def) simp
  then show ?thesis by (simp only: h_def l_def)
qed

lemma unit_units: "\<not> isSurrogate c \<Longrightarrow> utf16Units (unat c) = [c]"
  using unat_codeUnit [of c] by (simp add: utf16Units_def)

lemma fromScalars_Cons: "fromScalars (cp # cps) = utf16Units cp @ fromScalars cps"
  by (simp add: fromScalars_def)

lemma fromScalars_toScalars: "wellFormed s \<Longrightarrow> fromScalars (toScalars s) = s"
proof (induction s rule: toScalars.induct)
  case 1
  then show ?case by (simp add: fromScalars_def)
next
  case (2 c)
  then show ?case by (simp add: fromScalars_Cons unit_units fromScalars_def)
next
  case (3 c d cs)
  show ?case
  proof (cases "isHigh c")
    case True
    with "3.prems" have "isLow d" "wellFormed cs" by simp_all
    with True "3.IH"(1) show ?thesis
      by (simp add: fromScalars_Cons pair_units)
  next
    case False
    with "3.prems" have ns: "\<not> isSurrogate c" and wf: "wellFormed (d # cs)"
      by (auto simp: isSurrogate_def isHigh_def isLow_def)
    with False "3.IH"(3) show ?thesis
      by (simp add: fromScalars_Cons unit_units)
  qed
qed

lemma textEncode_roundtrip: "wellFormed s \<Longrightarrow> fromScalars (utf8Decode (textEncode s)) = s"
  by (simp add: textEncode_def utf8Decode_utf8Encode toScalars_scalar fromScalars_toScalars)

section \<open>The round trip\<close>

text \<open>
  Claim C7, as the code has it. For every well-formed text that has none of the four
  tokens as a substring and none of the characters 0x1C, 0x1D, 0x0E and 0x0F, the encoder
  followed by the token-reverse substitution gives the text back.
\<close>

theorem encoder_roundtrip:
  assumes "wellFormed text"
    and "\<not> occursIn (ascii ''<FS>'') text" "\<not> occursIn (ascii ''<SO>'') text"
    and "\<not> occursIn (ascii ''<GS>'') text" "\<not> occursIn (ascii ''<SI>'') text"
    and "0x1c \<notin> set text" "0x0e \<notin> set text" "0x1d \<notin> set text" "0x0f \<notin> set text"
  shows "tokenReverse (replaceSeperatorAndToUint8Array text) = text"
proof -
  from assms(2-5) have "replaceSeperatorAndToUint8Array text = textEncode text"
    by (simp add: replaceSeperatorAndToUint8Array_def replaceAll_absent)
  moreover from assms(1) have "fromScalars (utf8Decode (textEncode text)) = text"
    by (rule textEncode_roundtrip)
  ultimately show ?thesis
    using assms(6-9)
    by (simp add: tokenReverse_def replaceAll_absent occursIn_single FS_def SO_def GS_def SI_def)
qed

text \<open>The text \<^verbatim>\<open>H\<close>, U+00E9, U+20AC, U+1F600: sequences of one, two, three and four bytes.\<close>

theorem encoder_roundtrip_witness:
  "wellFormed [0x48, 0xe9, 0x20ac, 0xd83d, 0xde00]
   \<and> tokenReverse (replaceSeperatorAndToUint8Array [0x48, 0xe9, 0x20ac, 0xd83d, 0xde00])
       = [0x48, 0xe9, 0x20ac, 0xd83d, 0xde00]"
  using encoder_roundtrip [of "[0x48, 0xe9, 0x20ac, 0xd83d, 0xde00]"]
  by (simp add: ascii_def isHigh_def isLow_def isSurrogate_def)

text \<open>
  Without well-formedness the claim fails: a text that is one high surrogate has no token
  and no control character, and is encoded like the text that is U+FFFD, so that
  nothing applied to the bytes can give both texts back.
\<close>

theorem encoder_roundtrip_counterexample:
  "\<not> occursIn (ascii ''<FS>'') [0xd800] \<and> \<not> occursIn (ascii ''<SO>'') [0xd800]
   \<and> \<not> occursIn (ascii ''<GS>'') [0xd800] \<and> \<not> occursIn (ascii ''<SI>'') [0xd800]
   \<and> set [0xd800 :: codeUnit] \<inter> {0x1c, 0x1d, 0x0e, 0x0f} = {}
   \<and> replaceSeperatorAndToUint8Array [0xd800] = [0xef, 0xbf, 0xbd]
   \<and> replaceSeperatorAndToUint8Array [0xfffd] = [0xef, 0xbf, 0xbd]
   \<and> tokenReverse (replaceSeperatorAndToUint8Array [0xd800]) = [0xfffd]"
  by (simp add: ascii_def replaceSeperatorAndToUint8Array_def textEncode_def utf8Encode_def
      utf8EncodeScalar_def isSurrogate_def tokenReverse_def utf8Decode_def utf8DecodeFrom.simps
      fromScalars_def utf16Units_def FS_def SO_def GS_def SI_def)

end
